theory Spec2Isabelle
  imports Complex_Main
begin

section \<open>Data model of the options list\<close>

text \<open>
  Modelled from the spec: the typings module (\<open>OptionShape\<close>, \<open>GroupShape\<close>) is not part of
  the sources at hand. An option is a leaf item with a key and a disabled flag; a group is
  a label with an ordered sequence of options. An absent \<open>disabled\<close> field reads as false.
\<close>

record OptionShape =
  key :: string
  disabled :: bool

record GroupShape =
  label :: string
  groupOptions :: "OptionShape list"

datatype item = Opt OptionShape | Grp GroupShape

text \<open>
  Modelled from the spec: \<open>isGroup\<close> lives in the utils module, which is not part of the
  sources at hand. It tells a group from a leaf option. Where the source branches on it
  over the members of \<open>options\<close>, the model matches on the constructor.
\<close>

fun isGroup :: "item \<Rightarrow> bool" where
  "isGroup (Grp g) = True"
| "isGroup (Opt opt) = False"

text \<open>
  The properties of \<open>VirtualOptionsList\<close> after destructuring, with the defaults of the
  source applied (\<open>flatOptions = []\<close>, \<open>highlightedIndex = -1\<close>, \<open>options = []\<close>).
  \<open>isOpen\<close> is the property \<open>open\<close>; an omitted flag reads as false, as it does in the
  one test the source makes of it. \<open>optionsRef\<close> is the
  object identity of the \<open>options\<close> array, which is what the dependency check of
  \<open>useMemo\<close> compares. \<open>emptyPlaceholder\<close> is \<open>None\<close> when omitted.
\<close>

record VirtualOptionsListProps =
  flatOptions :: "OptionShape list"
  highlightedIndex :: int
  isOpen :: bool
  options :: "item list"
  optionsRef :: nat
  emptyPlaceholder :: "string option"

text \<open>
  What \<open>useVirtual\<close> hands back at one render: the row descriptors and the total size. Its
  imperative \<open>scrollToIndex\<close> is modelled by the calls the component issues.
\<close>

record VirtualItem =
  index :: nat
  start :: int

record RowVirtualizer =
  virtualItems :: "VirtualItem list"
  totalSize :: int

datatype align = AlignStart | AlignCenter | AlignEnd | AlignAuto

datatype scroll_call = ScrollToIndex int "align option"

section \<open>The effects of VirtualOptionsList\<close>

text \<open>Scroll to the highlighted row when the menu opens.\<close>

definition openEffect :: "VirtualOptionsListProps \<Rightarrow> scroll_call list" where
  "openEffect p =
     (if isOpen p then [ScrollToIndex (highlightedIndex p) (Some AlignEnd)] else [])"

text \<open>Scroll to a highlighted row that is not among the rendered rows.\<close>

definition highlightEffect :: "VirtualOptionsListProps \<Rightarrow> RowVirtualizer \<Rightarrow> scroll_call list" where
  "highlightEffect p v =
     (if highlightedIndex p = - 1 then []
      else if \<not> list_ex (\<lambda>option. int (index option) = highlightedIndex p) (virtualItems v)
        then [ScrollToIndex (highlightedIndex p) (Some AlignEnd)]
        else [])"

text \<open>\<open>Array.prototype.findIndex\<close>: the first index whose element satisfies the predicate, or -1.\<close>

fun findIndex_from :: "('a \<Rightarrow> bool) \<Rightarrow> 'a list \<Rightarrow> int \<Rightarrow> int" where
  "findIndex_from P [] k = - 1"
| "findIndex_from P (x # xs) k = (if P x then k else findIndex_from P xs (k + 1))"

definition findIndex :: "'a list \<Rightarrow> ('a \<Rightarrow> bool) \<Rightarrow> int" where
  "findIndex xs P = findIndex_from P xs 0"

text \<open>
  Modelled from the spec: \<open>lastIndexOf\<close> lives in the utils module, which is not part of the
  sources at hand. It gives the index of the last element that satisfies the predicate
  (the last non-disabled option), or -1 when there is none, scanning from the end.
\<close>

fun lastIndexOf_from :: "'a list \<Rightarrow> ('a \<Rightarrow> bool) \<Rightarrow> nat \<Rightarrow> int" where
  "lastIndexOf_from xs P 0 = - 1"
| "lastIndexOf_from xs P (Suc i) = (if P (xs ! i) then int i else lastIndexOf_from xs P i)"

definition lastIndexOf :: "'a list \<Rightarrow> ('a \<Rightarrow> bool) \<Rightarrow> int" where
  "lastIndexOf xs P = lastIndexOf_from xs P (length xs)"

definition notDisabled :: "OptionShape \<Rightarrow> bool" where
  "notDisabled option = (\<not> disabled option)"

text \<open>
  Modelled from the spec: \<open>usePrevious\<close> lives in the utils module. It keeps the value of
  the previous render in a ref (\<open>None\<close>, that is undefined, at the first render). The
  source reads it as \<open>usePrevious(highlightedIndex) || -1\<close>, so undefined and 0 both
  become -1.
\<close>

definition prevHighlightedIndex :: "int option \<Rightarrow> int" where
  "prevHighlightedIndex previous =
     (case previous of None \<Rightarrow> - 1 | Some i \<Rightarrow> if i = 0 then - 1 else i)"

text \<open>Cyclic navigation.\<close>

definition cyclicEffect :: "OptionShape list \<Rightarrow> int \<Rightarrow> int \<Rightarrow> scroll_call list" where
  "cyclicEffect flat prev hi =
     (let firstNonDisabled = findIndex flat notDisabled;
          lastNonDisabled = lastIndexOf flat notDisabled
      in (if prev \<le> firstNonDisabled \<and> hi = int (length flat) - 1
            then [ScrollToIndex lastNonDisabled None] else [])
         @ (if prev \<ge> lastNonDisabled \<and> hi = 0 then [ScrollToIndex 0 None] else []))"

text \<open>The value handed to \<open>setVisibleOptionsInvalidateKey\<close>.\<close>

definition invalidateKeyValue :: "RowVirtualizer \<Rightarrow> OptionShape list \<Rightarrow> nat" where
  "invalidateKeyValue v flat = (if length (virtualItems v) > 1 then length flat else 1)"

section \<open>Hook state and one commit of VirtualOptionsList\<close>

text \<open>
  The state React keeps for the component between renders: the ref of \<open>usePrevious\<close>, the
  dependency lists of the four effects as of their last run (\<open>None\<close> before the mount),
  and the state cell of the height-invalidation key (initially 0).
\<close>

record VState =
  previousRef :: "int option"
  openDeps :: "bool option"
  highlightDeps :: "int option"
  cyclicDeps :: "(int \<times> int) option"
  keyDeps :: "(nat \<times> nat) option"
  visibleOptionsInvalidateKey :: nat

definition initialVState :: VState where
  "initialVState =
     \<lparr>previousRef = None, openDeps = None, highlightDeps = None, cyclicDeps = None,
      keyDeps = None, visibleOptionsInvalidateKey = 0\<rparr>"

text \<open>An effect runs at the mount and whenever one of its dependencies has changed.\<close>

definition depsChanged :: "'d option \<Rightarrow> 'd \<Rightarrow> bool" where
  "depsChanged old new = (old \<noteq> Some new)"

definition openCalls :: "VState \<Rightarrow> VirtualOptionsListProps \<Rightarrow> scroll_call list" where
  "openCalls s p = (if depsChanged (openDeps s) (isOpen p) then openEffect p else [])"

definition highlightCalls ::
  "VState \<Rightarrow> VirtualOptionsListProps \<Rightarrow> RowVirtualizer \<Rightarrow> scroll_call list" where
  "highlightCalls s p v =
     (if depsChanged (highlightDeps s) (highlightedIndex p) then highlightEffect p v else [])"

definition cyclicCalls :: "VState \<Rightarrow> VirtualOptionsListProps \<Rightarrow> scroll_call list" where
  "cyclicCalls s p =
     (let prev = prevHighlightedIndex (previousRef s) in
      if depsChanged (cyclicDeps s) (prev, highlightedIndex p)
        then cyclicEffect (flatOptions p) prev (highlightedIndex p) else [])"

definition nextKey :: "VState \<Rightarrow> VirtualOptionsListProps \<Rightarrow> RowVirtualizer \<Rightarrow> nat" where
  "nextKey s p v =
     (if depsChanged (keyDeps s) (length (virtualItems v), length (flatOptions p))
        then invalidateKeyValue v (flatOptions p) else visibleOptionsInvalidateKey s)"

text \<open>
  One render followed by its effects, in the order of the source: the scroll calls issued
  and the hook state left behind. The closures of the effects see the values of this
  render, so the previous highlighted index is read before the ref is overwritten.
\<close>

definition commit ::
  "VState \<Rightarrow> VirtualOptionsListProps \<Rightarrow> RowVirtualizer \<Rightarrow> scroll_call list \<times> VState" where
  "commit s p v =
     (openCalls s p @ highlightCalls s p v @ cyclicCalls s p,
      \<lparr>previousRef = Some (highlightedIndex p),
       openDeps = Some (isOpen p),
       highlightDeps = Some (highlightedIndex p),
       cyclicDeps = Some (prevHighlightedIndex (previousRef s), highlightedIndex p),
       keyDeps = Some (length (virtualItems v), length (flatOptions p)),
       visibleOptionsInvalidateKey = nextKey s p v\<rparr>)"

text \<open>The state after a sequence of renders.\<close>

fun commits :: "VState \<Rightarrow> (VirtualOptionsListProps \<times> RowVirtualizer) list \<Rightarrow> VState" where
  "commits s [] = s"
| "commits s ((p, v) # rs) = commits (snd (commit s p v)) rs"

definition keyInvariant :: "VState \<Rightarrow> bool" where
  "keyInvariant s =
     (case keyDeps s of
        None \<Rightarrow> True
      | Some (rendered, count) \<Rightarrow>
          visibleOptionsInvalidateKey s = (if rendered > 1 then count else 1))"

section \<open>Group start indexes and rendering\<close>

text \<open>
  Modelled from the spec: the flattening is done by the caller, outside the sources at
  hand; the component receives its result as \<open>flatOptions\<close>. Groups are expanded in place.
\<close>

fun flatten :: "item list \<Rightarrow> OptionShape list" where
  "flatten [] = []"
| "flatten (Opt opt # rest) = opt # flatten rest"
| "flatten (Grp g # rest) = groupOptions g @ flatten rest"

text \<open>
  The \<open>reduce\<close> over \<open>options\<close>: \<open>currentIndex\<close> is the variable of the enclosing closure,
  \<open>idx\<close> the position in \<open>options\<close> (the \<open>index\<close> of the callback), \<open>acc\<close> the object being filled.
\<close>

fun groupStartIndexes_reduce ::
  "item list \<Rightarrow> nat \<Rightarrow> nat \<Rightarrow> (nat \<rightharpoonup> nat) \<Rightarrow> (nat \<rightharpoonup> nat)" where
  "groupStartIndexes_reduce [] currentIndex idx acc = acc"
| "groupStartIndexes_reduce (Grp g # rest) currentIndex idx acc =
     groupStartIndexes_reduce rest (currentIndex + length (groupOptions g)) (idx + 1)
       (acc(currentIndex \<mapsto> idx))"
| "groupStartIndexes_reduce (Opt opt # rest) currentIndex idx acc =
     groupStartIndexes_reduce rest (currentIndex + 1) (idx + 1) acc"

definition groupStartIndexes :: "item list \<Rightarrow> (nat \<rightharpoonup> nat)" where
  "groupStartIndexes opts = groupStartIndexes_reduce opts 0 0 Map.empty"

text \<open>
  The cell of \<open>useMemo\<close>: the dependency (the identity of \<open>options\<close>) and the value of the
  last computation, and a counter of the computations made so far.
\<close>

record MemoState =
  memoCell :: "(nat \<times> (nat \<rightharpoonup> nat)) option"
  computations :: nat

definition initialMemoState :: MemoState where
  "initialMemoState = \<lparr>memoCell = None, computations = 0\<rparr>"

definition useMemo_groupStartIndexes ::
  "MemoState \<Rightarrow> VirtualOptionsListProps \<Rightarrow> (nat \<rightharpoonup> nat) \<times> MemoState" where
  "useMemo_groupStartIndexes ms p =
     (let recomputed = groupStartIndexes (options p);
          fresh = (recomputed,
                   \<lparr>memoCell = Some (optionsRef p, recomputed),
                    computations = computations ms + 1\<rparr>)
      in case memoCell ms of
           None \<Rightarrow> fresh
         | Some (dep, stored) \<Rightarrow> if dep = optionsRef p then (stored, ms) else fresh)"

text \<open>
  The rendered tree. A row outside \<open>flatOptions\<close> reads undefined and hands it to the
  absent \<open>isGroup\<close> helper; the model reports that case as an error value instead of
  guessing the helper's answer. Within the range the element is an \<open>OptionShape\<close>, on
  which \<open>isGroup\<close> is false.
\<close>

datatype render_error = UndefinedOption nat

datatype node =
    Optgroup "string option"
  | OptionNode OptionShape nat
  | VirtualRow nat bool int "node list"
  | Inner int "node list"
  | EmptyPlaceholder string
  | Root "node list"

text \<open>\<open>options[groupStartIndexes[virtualRow.index]]\<close>: undefined when either lookup misses.\<close>

definition rowGroup :: "item list \<Rightarrow> (nat \<rightharpoonup> nat) \<Rightarrow> nat \<Rightarrow> item option" where
  "rowGroup opts starts i =
     (case starts i of
        None \<Rightarrow> None
      | Some j \<Rightarrow> if j < length opts then Some (opts ! j) else None)"

text \<open>\<open>group.label\<close> after the cast to \<open>GroupShape\<close>: a leaf option has no label.\<close>

fun groupLabel :: "item \<Rightarrow> string option" where
  "groupLabel (Grp g) = Some (label g)"
| "groupLabel (Opt opt) = None"

definition renderRow ::
  "VirtualOptionsListProps \<Rightarrow> (nat \<rightharpoonup> nat) \<Rightarrow> VirtualItem \<Rightarrow> render_error + node" where
  "renderRow p starts virtualRow =
     (if index virtualRow < length (flatOptions p) then
        (let option = flatOptions p ! index virtualRow;
             group = rowGroup (options p) starts (index virtualRow)
         in Inr (VirtualRow (index virtualRow)
                   (highlightedIndex p = int (index virtualRow))
                   (start virtualRow)
                   ((case group of None \<Rightarrow> [] | Some g \<Rightarrow> [Optgroup (groupLabel g)])
                    @ (if \<not> isGroup (Opt option)
                         then [OptionNode option (index virtualRow)] else []))))
      else Inl (UndefinedOption (index virtualRow)))"

fun renderRows ::
  "VirtualOptionsListProps \<Rightarrow> (nat \<rightharpoonup> nat) \<Rightarrow> VirtualItem list \<Rightarrow> render_error + node list" where
  "renderRows p starts [] = Inr []"
| "renderRows p starts (virtualRow # rest) =
     (case renderRow p starts virtualRow of
        Inl e \<Rightarrow> Inl e
      | Inr row \<Rightarrow>
          (case renderRows p starts rest of Inl e \<Rightarrow> Inl e | Inr rows \<Rightarrow> Inr (row # rows)))"

text \<open>
  \<open>emptyPlaceholder && options.length === 0 && ...\<close>: an omitted or empty placeholder is
  falsy and renders nothing.
\<close>

definition renderPlaceholder :: "VirtualOptionsListProps \<Rightarrow> node list" where
  "renderPlaceholder p =
     (case emptyPlaceholder p of
        None \<Rightarrow> []
      | Some content \<Rightarrow>
          if content \<noteq> [] \<and> length (options p) = 0 then [EmptyPlaceholder content] else [])"

definition render ::
  "VirtualOptionsListProps \<Rightarrow> (nat \<rightharpoonup> nat) \<Rightarrow> RowVirtualizer \<Rightarrow> render_error + node" where
  "render p starts v =
     (case renderRows p starts (virtualItems v) of
        Inl e \<Rightarrow> Inl e
      | Inr rows \<Rightarrow> Inr (Root (Inner (totalSize v) rows # renderPlaceholder p)))"




section \<open>Popover\<close>

text \<open>
  Elements, function values and ref objects are known by their identity. The twelve
  placements are the base and the variation placements of the positioning engine.
\<close>

type_synonym element = nat
type_synonym callback = nat
type_synonym ref = nat

datatype Position =
    Top | Bottom | Right | Left
  | TopStart | TopEnd | BottomStart | BottomEnd
  | RightStart | RightEnd | LeftStart | LeftEnd

datatype ModifierOptions =
    OffsetOptions "real \<times> real"
  | ArrowOptions "element option"
  | FlipOptions "Position list"
  | PreventOverflowOptions bool

record PopperModifier =
  name :: string
  modifierOptions :: ModifierOptions

text \<open>
  The properties of \<open>Popover\<close> that the modelled code reads; \<open>None\<close> is an omitted
  property. \<open>update\<close> is the ref object of the caller.
\<close>

record PopoverProps =
  anchorElement :: "element option"
  useAnchorWidth :: "bool option"
  preventFlip :: "bool option"
  preventOverflow :: "bool option"
  withArrow :: "bool option"
  offset :: "(real \<times> real) option"
  fallbackPlacements :: "Position list option"
  update :: "ref option"

definition truthy :: "bool option \<Rightarrow> bool" where
  "truthy b = (b = Some True)"

definition orDefault :: "'a option \<Rightarrow> 'a \<Rightarrow> 'a" where
  "orDefault given d = (case given of None \<Rightarrow> d | Some x \<Rightarrow> x)"

definition getModifiers :: "PopoverProps \<Rightarrow> element option \<Rightarrow> PopperModifier list" where
  "getModifiers p arrowElement =
     [\<lparr>name = ''offset'', modifierOptions = OffsetOptions (orDefault (offset p) (0, 0))\<rparr>]
     @ (if orDefault (withArrow p) False
          then [\<lparr>name = ''arrow'', modifierOptions = ArrowOptions arrowElement\<rparr>] else [])
     @ (if truthy (preventFlip p)
          then [\<lparr>name = ''flip'', modifierOptions = FlipOptions []\<rparr>] else [])
     @ (case fallbackPlacements p of
          None \<Rightarrow> []
        | Some placements \<Rightarrow> [\<lparr>name = ''flip'', modifierOptions = FlipOptions placements\<rparr>])
     @ (if orDefault (preventOverflow p) True
          then [\<lparr>name = ''preventOverflow'', modifierOptions = PreventOverflowOptions False\<rparr>]
          else [])"

text \<open>
  The store of ref objects: the \<open>current\<close> field of each, \<open>None\<close> while it is unset.
  \<open>updatePopoverWidth\<close> gives the functions it invokes.
\<close>

type_synonym refs = "ref \<Rightarrow> callback option"

definition updatePopoverWidth :: "PopoverProps \<Rightarrow> refs \<Rightarrow> callback list" where
  "updatePopoverWidth p store =
     (if truthy (useAnchorWidth p) then
        (case update p of
           None \<Rightarrow> []
         | Some r \<Rightarrow> (case store r of None \<Rightarrow> [] | Some f \<Rightarrow> [f]))
      else [])"

text \<open>
  The effect without dependencies, run after every render: \<open>updatePopper\<close> is what the
  positioning engine returned at this render (\<open>None\<close> while it has no instance).
\<close>

definition assignUpdate :: "PopoverProps \<Rightarrow> callback option \<Rightarrow> refs \<Rightarrow> refs" where
  "assignUpdate p updatePopper store =
     (case update p of
        None \<Rightarrow> store
      | Some r \<Rightarrow>
          (case store r of
             Some f \<Rightarrow> store
           | None \<Rightarrow>
               (case updatePopper of None \<Rightarrow> store | Some f \<Rightarrow> store(r := Some f))))"

fun assignUpdates :: "refs \<Rightarrow> (PopoverProps \<times> callback option) list \<Rightarrow> refs" where
  "assignUpdates store [] = store"
| "assignUpdates store ((p, updatePopper) # rest) =
     assignUpdates (assignUpdate p updatePopper store) rest"

text \<open>
  The resize observer. The dependencies of its effect are \<open>anchorElement\<close>, \<open>update\<close> and
  \<open>updatePopoverWidth\<close>; the latter is a \<open>useCallback\<close> over \<open>update\<close> and
  \<open>useAnchorWidth\<close>, so its identity changes exactly when one of the two does.
\<close>

datatype observer_event = NewObserver | Observe element | Disconnect

type_synonym observer_deps = "element option \<times> ref option \<times> bool option"

definition observerDepsOf :: "PopoverProps \<Rightarrow> observer_deps" where
  "observerDepsOf p = (anchorElement p, update p, useAnchorWidth p)"

definition cleanup :: "observer_deps option \<Rightarrow> observer_event list" where
  "cleanup old = (case old of None \<Rightarrow> [] | Some deps \<Rightarrow> [Disconnect])"

definition observerEffect :: "observer_deps option \<Rightarrow> PopoverProps \<Rightarrow> observer_event list" where
  "observerEffect old p =
     (if depsChanged old (observerDepsOf p) then
        cleanup old @ NewObserver
          # (case anchorElement p of None \<Rightarrow> [] | Some anchor \<Rightarrow> [Observe anchor])
      else [])"

text \<open>
  The hook state of \<open>Popover\<close> that the modelled code reads: the reference element (a
  state cell that starts as the anchor and follows it through an effect) and the
  dependencies of the observer effect as of its last run.
\<close>

record PopoverState =
  referenceElement :: "element option"
  observerDeps :: "observer_deps option"

definition mountState :: "PopoverProps \<Rightarrow> PopoverState" where
  "mountState p = \<lparr>referenceElement = anchorElement p, observerDeps = None\<rparr>"

definition popoverCommit ::
  "PopoverState \<Rightarrow> PopoverProps \<Rightarrow> observer_event list \<times> PopoverState" where
  "popoverCommit s p =
     (observerEffect (observerDeps s) p,
      \<lparr>referenceElement = anchorElement p, observerDeps = Some (observerDepsOf p)\<rparr>)"

definition unmount :: "PopoverState \<Rightarrow> observer_event list" where
  "unmount s = cleanup (observerDeps s)"

text \<open>
  The element the live observer watches, read off the events in order.
\<close>

fun watched :: "element option \<Rightarrow> observer_event list \<Rightarrow> element option" where
  "watched w [] = w"
| "watched w (NewObserver # es) = watched None es"
| "watched w (Observe e # es) = watched (Some e) es"
| "watched w (Disconnect # es) = watched None es"

text \<open>
  The \<open>width\<close> style of the panel at a render: \<open>offsetWidth\<close> of the reference element as
  the document measures it then, or undefined.
\<close>

definition popoverWidth :: "PopoverProps \<Rightarrow> PopoverState \<Rightarrow> (element \<Rightarrow> int) \<Rightarrow> int option" where
  "popoverWidth p s offsetWidth =
     (if truthy (useAnchorWidth p) then
        (case referenceElement s of None \<Rightarrow> None | Some e \<Rightarrow> Some (offsetWidth e))
      else None)"

section \<open>One render of VirtualOptionsList\<close>

text \<open>
  The render itself: the memoised map is looked up (or computed) once, then handed to every
  row.
\<close>

definition renderPass ::
  "MemoState \<Rightarrow> VirtualOptionsListProps \<Rightarrow> RowVirtualizer
     \<Rightarrow> (render_error + node) \<times> MemoState" where
  "renderPass ms p v =
     (let (starts, ms') = useMemo_groupStartIndexes ms p in (render p starts v, ms'))"

section \<open>Example inputs\<close>

definition optionA :: OptionShape where "optionA = \<lparr>key = ''A'', disabled = False\<rparr>"
definition optionB :: OptionShape where "optionB = \<lparr>key = ''B'', disabled = False\<rparr>"
definition optionC :: OptionShape where "optionC = \<lparr>key = ''C'', disabled = False\<rparr>"
definition optionX :: OptionShape where "optionX = \<lparr>key = ''X'', disabled = False\<rparr>"
definition optionY :: OptionShape where "optionY = \<lparr>key = ''Y'', disabled = False\<rparr>"
definition optionZ :: OptionShape where "optionZ = \<lparr>key = ''Z'', disabled = False\<rparr>"

definition groupG :: GroupShape where
  "groupG = \<lparr>label = ''G'', groupOptions = [optionX, optionY]\<rparr>"

definition emptyGroup :: GroupShape where
  "emptyGroup = \<lparr>label = ''E'', groupOptions = []\<rparr>"

text \<open>Three enabled options, with a given highlighted index and open flag.\<close>

definition listABC :: "int \<Rightarrow> bool \<Rightarrow> VirtualOptionsListProps" where
  "listABC hi opened =
     \<lparr>flatOptions = [optionA, optionB, optionC], highlightedIndex = hi, isOpen = opened,
      options = [Opt optionA, Opt optionB, Opt optionC], optionsRef = 0,
      emptyPlaceholder = None\<rparr>"

text \<open>A top-level option followed by a group of two.\<close>

definition listZG :: VirtualOptionsListProps where
  "listZG =
     \<lparr>flatOptions = [optionZ, optionX, optionY], highlightedIndex = - 1, isOpen = True,
      options = [Opt optionZ, Grp groupG], optionsRef = 0, emptyPlaceholder = None\<rparr>"

text \<open>An empty group followed by a top-level option.\<close>

definition listEZ :: VirtualOptionsListProps where
  "listEZ =
     \<lparr>flatOptions = [optionZ], highlightedIndex = - 1, isOpen = True,
      options = [Grp emptyGroup, Opt optionZ], optionsRef = 0, emptyPlaceholder = None\<rparr>"

text \<open>The group of two alone.\<close>

definition listG :: VirtualOptionsListProps where
  "listG =
     \<lparr>flatOptions = [optionX, optionY], highlightedIndex = - 1, isOpen = True,
      options = [Grp groupG], optionsRef = 0, emptyPlaceholder = None\<rparr>"



text \<open>The virtualizer reporting the rows of the given indexes, each 40 high.\<close>

definition rowsOf :: "nat list \<Rightarrow> RowVirtualizer" where
  "rowsOf indexes =
     \<lparr>virtualItems = map (\<lambda>i. \<lparr>index = i, start = 40 * int i\<rparr>) indexes,
      totalSize = 40 * int (length indexes)\<rparr>"

definition bareProps :: PopoverProps where
  "bareProps =
     \<lparr>anchorElement = None, useAnchorWidth = None, preventFlip = None, preventOverflow = None,
      withArrow = None, offset = None, fallbackPlacements = None, update = None\<rparr>"

definition flipProps :: PopoverProps where
  "flipProps = bareProps\<lparr>preventFlip := Some True, fallbackPlacements := Some [Bottom]\<rparr>"

definition widthProps :: PopoverProps where
  "widthProps =
     bareProps\<lparr>anchorElement := Some 1, useAnchorWidth := Some True, update := Some 7\<rparr>"

definition movedProps :: PopoverProps where
  "movedProps =
     bareProps\<lparr>anchorElement := Some 2, useAnchorWidth := Some True, update := Some 7\<rparr>"

definition noRefProps :: PopoverProps where
  "noRefProps = bareProps\<lparr>anchorElement := Some 1, useAnchorWidth := Some True\<rparr>"

definition refProps :: PopoverProps where
  "refProps = bareProps\<lparr>update := Some 7\<rparr>"

definition unsetRefs :: refs where
  "unsetRefs = (\<lambda>r. None)"

section \<open>Facts about one commit\<close>

lemma commit_state:
  "previousRef (snd (commit s p v)) = Some (highlightedIndex p)"
  "openDeps (snd (commit s p v)) = Some (isOpen p)"
  "highlightDeps (snd (commit s p v)) = Some (highlightedIndex p)"
  "cyclicDeps (snd (commit s p v)) = Some (prevHighlightedIndex (previousRef s), highlightedIndex p)"
  "keyDeps (snd (commit s p v)) = Some (length (virtualItems v), length (flatOptions p))"
  "visibleOptionsInvalidateKey (snd (commit s p v)) = nextKey s p v"
  by (simp_all add: commit_def)

lemma commit_calls:
  "fst (commit s p v) = openCalls s p @ highlightCalls s p v @ cyclicCalls s p"
  by (simp add: commit_def)

lemma listABC_simps:
  "flatOptions (listABC hi opened) = [optionA, optionB, optionC]"
  "highlightedIndex (listABC hi opened) = hi"
  "isOpen (listABC hi opened) = opened"
  by (simp_all add: listABC_def)

lemma rowsOf_simps:
  "virtualItems (rowsOf indexes) = map (\<lambda>i. \<lparr>index = i, start = 40 * int i\<rparr>) indexes"
  "totalSize (rowsOf indexes) = 40 * int (length indexes)"
  by (simp_all add: rowsOf_def)

section \<open>Scrolling on open and on highlight\<close>

text \<open>
  C6. When the open flag goes from closed at one render to open at the next, the open
  effect runs and calls \<open>scrollToIndex\<close> with the highlighted index of that render and the
  alignment \<open>end\<close>; the call is among the scroll calls of the commit.
\<close>

theorem open_transition_scroll:
  assumes "\<not> isOpen p0" and "isOpen p"
  shows "openCalls (snd (commit s0 p0 v0)) p
           = [ScrollToIndex (highlightedIndex p) (Some AlignEnd)]
     \<and> ScrollToIndex (highlightedIndex p) (Some AlignEnd)
         \<in> set (fst (commit (snd (commit s0 p0 v0)) p v))"
  using assms
  by (simp add: commit_calls commit_state openCalls_def depsChanged_def openEffect_def)

theorem open_transition_scroll_witness:
  "\<not> isOpen (listABC 1 False) \<and> isOpen (listABC 1 True)
   \<and> ScrollToIndex 1 (Some AlignEnd)
       \<in> set (fst (commit (snd (commit initialVState (listABC 1 False) (rowsOf [])))
                   (listABC 1 True) (rowsOf [0, 1])))"
proof -
  have closed: "\<not> isOpen (listABC 1 False)" and opened: "isOpen (listABC 1 True)"
    by (simp_all add: listABC_simps)
  from open_transition_scroll [OF closed opened, of initialVState "rowsOf []" "rowsOf [0, 1]"]
  have "ScrollToIndex (highlightedIndex (listABC 1 True)) (Some AlignEnd)
       \<in> set (fst (commit (snd (commit initialVState (listABC 1 False) (rowsOf [])))
                   (listABC 1 True) (rowsOf [0, 1])))"
    by (rule conjunct2)
  with closed opened show ?thesis by (simp add: listABC_simps)
qed

text \<open>
  C7. When the highlighted index changes from one render to the next, to a value other
  than -1: if no rendered virtual row has that index, the highlight effect calls
  \<open>scrollToIndex\<close> on it with the alignment \<open>end\<close>, whatever the open flag does; if a
  rendered row has that index, the highlight effect issues no call.
\<close>

theorem highlight_follow_scroll:
  assumes "highlightedIndex p \<noteq> highlightedIndex p0" and "highlightedIndex p \<noteq> - 1"
  shows "((\<forall>r \<in> set (virtualItems v). int (index r) \<noteq> highlightedIndex p) \<longrightarrow>
           highlightCalls (snd (commit s0 p0 v0)) p v
             = [ScrollToIndex (highlightedIndex p) (Some AlignEnd)]
           \<and> ScrollToIndex (highlightedIndex p) (Some AlignEnd)
               \<in> set (fst (commit (snd (commit s0 p0 v0)) p v)))
       \<and> ((\<exists>r \<in> set (virtualItems v). int (index r) = highlightedIndex p) \<longrightarrow>
           highlightCalls (snd (commit s0 p0 v0)) p v = [])"
  using assms
  by (auto simp add: commit_calls commit_state highlightCalls_def depsChanged_def
      highlightEffect_def list_ex_iff)

theorem highlight_follow_scroll_witness:
  "highlightCalls (snd (commit initialVState (listABC 0 False) (rowsOf [0, 1])))
       (listABC 2 False) (rowsOf [0, 1])
     = [ScrollToIndex 2 (Some AlignEnd)]
   \<and> highlightCalls (snd (commit initialVState (listABC 0 False) (rowsOf [0, 1])))
       (listABC 2 False) (rowsOf [1, 2])
     = []"
proof -
  have change: "highlightedIndex (listABC 2 False) \<noteq> highlightedIndex (listABC 0 False)"
    and some: "highlightedIndex (listABC 2 False) \<noteq> - 1"
    by (simp_all add: listABC_simps)
  have absent: "\<forall>r \<in> set (virtualItems (rowsOf [0, 1])).
      int (index r) \<noteq> highlightedIndex (listABC 2 False)"
    by (simp add: rowsOf_simps listABC_simps)
  have present: "\<exists>r \<in> set (virtualItems (rowsOf [1, 2])).
      int (index r) = highlightedIndex (listABC 2 False)"
    by (simp add: rowsOf_simps listABC_simps)
  from highlight_follow_scroll [OF change some, of "rowsOf [0, 1]" initialVState "rowsOf [0, 1]"]
    absent
  have one: "highlightCalls (snd (commit initialVState (listABC 0 False) (rowsOf [0, 1])))
       (listABC 2 False) (rowsOf [0, 1])
     = [ScrollToIndex (highlightedIndex (listABC 2 False)) (Some AlignEnd)]"
    by blast
  from highlight_follow_scroll [OF change some, of "rowsOf [1, 2]" initialVState "rowsOf [0, 1]"]
    present
  have two: "highlightCalls (snd (commit initialVState (listABC 0 False) (rowsOf [0, 1])))
       (listABC 2 False) (rowsOf [1, 2]) = []"
    by blast
  from one two show ?thesis by (simp add: listABC_simps)
qed

text \<open>
  C9. The open effect has no guard for the missing highlight: when the open flag goes
  from closed to open while the highlighted index is -1, it still calls \<open>scrollToIndex\<close>
  with -1 and the alignment \<open>end\<close>, while the highlight effect of the same commit issues
  no call.
\<close>

theorem open_scroll_without_highlight:
  assumes "\<not> isOpen p0" and "isOpen p" and "highlightedIndex p = - 1"
  shows "openCalls (snd (commit s0 p0 v0)) p = [ScrollToIndex (- 1) (Some AlignEnd)]
     \<and> ScrollToIndex (- 1) (Some AlignEnd) \<in> set (fst (commit (snd (commit s0 p0 v0)) p v))
     \<and> highlightCalls (snd (commit s0 p0 v0)) p v = []"
  using assms
  by (simp add: commit_calls commit_state openCalls_def depsChanged_def openEffect_def
      highlightCalls_def highlightEffect_def)

theorem open_scroll_without_highlight_witness:
  "openCalls (snd (commit initialVState (listABC (- 1) False) (rowsOf [0, 1])))
       (listABC (- 1) True)
     = [ScrollToIndex (- 1) (Some AlignEnd)]
   \<and> highlightCalls (snd (commit initialVState (listABC (- 1) False) (rowsOf [0, 1])))
       (listABC (- 1) True) (rowsOf [0, 1])
     = []"
proof -
  have closed: "\<not> isOpen (listABC (- 1) False)" and opened: "isOpen (listABC (- 1) True)"
    and none: "highlightedIndex (listABC (- 1) True) = - 1"
    by (simp_all add: listABC_simps)
  from open_scroll_without_highlight
    [OF closed opened none, of initialVState "rowsOf [0, 1]" "rowsOf [0, 1]"]
  show ?thesis by blast
qed

section \<open>Cyclic navigation\<close>

lemma prevHighlightedIndex_le: "prevHighlightedIndex (Some i) \<le> i"
  by (simp add: prevHighlightedIndex_def)

lemma prevHighlightedIndex_nonzero: "i \<noteq> 0 \<Longrightarrow> prevHighlightedIndex (Some i) = i"
  by (simp add: prevHighlightedIndex_def)

lemma findIndex_from_first:
  assumes "0 \<le> k" and "findIndex_from P xs k = r"
  shows "(r = - 1 \<and> (\<forall>x \<in> set xs. \<not> P x)) \<or>
     (k \<le> r \<and> nat (r - k) < length xs \<and> P (xs ! nat (r - k))
        \<and> (\<forall>j < nat (r - k). \<not> P (xs ! j)))"
  using assms
proof (induction xs arbitrary: k)
  case Nil
  then show ?case by simp
next
  case (Cons x xs)
  show ?case
  proof (cases "P x")
    case True
    with Cons.prems show ?thesis by auto
  next
    case False
    with Cons.prems have r: "findIndex_from P xs (k + 1) = r" by simp
    from Cons.prems have "0 \<le> k + 1" by simp
    from Cons.IH [OF this r]
    show ?thesis
    proof
      assume "r = - 1 \<and> (\<forall>x\<in>set xs. \<not> P x)"
      with False show ?thesis by simp
    next
      assume a: "k + 1 \<le> r \<and> nat (r - (k + 1)) < length xs \<and> P (xs ! nat (r - (k + 1)))
        \<and> (\<forall>j<nat (r - (k + 1)). \<not> P (xs ! j))"
      then have eq: "nat (r - k) = Suc (nat (r - (k + 1)))" by linarith
      have "\<forall>j < nat (r - k). \<not> P ((x # xs) ! j)"
      proof (intro allI impI)
        fix j assume "j < nat (r - k)"
        then show "\<not> P ((x # xs) ! j)"
          using a False eq by (cases j) auto
      qed
      with a eq show ?thesis by auto
    qed
  qed
qed

lemma findIndex_first:
  "(findIndex xs P = - 1 \<and> (\<forall>x \<in> set xs. \<not> P x)) \<or>
   (0 \<le> findIndex xs P \<and> nat (findIndex xs P) < length xs \<and> P (xs ! nat (findIndex xs P))
      \<and> (\<forall>j < nat (findIndex xs P). \<not> P (xs ! j)))"
  using findIndex_from_first [of 0 P xs "findIndex xs P"] by (simp add: findIndex_def)

lemma lastIndexOf_from_last:
  "n \<le> length xs \<Longrightarrow>
     (lastIndexOf_from xs P n = - 1 \<and> (\<forall>j < n. \<not> P (xs ! j))) \<or>
     (0 \<le> lastIndexOf_from xs P n \<and> nat (lastIndexOf_from xs P n) < n
        \<and> P (xs ! nat (lastIndexOf_from xs P n))
        \<and> (\<forall>j. nat (lastIndexOf_from xs P n) < j \<and> j < n \<longrightarrow> \<not> P (xs ! j)))"
proof (induction n)
  case 0
  then show ?case by simp
next
  case (Suc n)
  show ?case
  proof (cases "P (xs ! n)")
    case True
    then show ?thesis by (auto simp add: less_Suc_eq)
  next
    case False
    from Suc have "(lastIndexOf_from xs P n = - 1 \<and> (\<forall>j < n. \<not> P (xs ! j))) \<or>
     (0 \<le> lastIndexOf_from xs P n \<and> nat (lastIndexOf_from xs P n) < n
        \<and> P (xs ! nat (lastIndexOf_from xs P n))
        \<and> (\<forall>j. nat (lastIndexOf_from xs P n) < j \<and> j < n \<longrightarrow> \<not> P (xs ! j)))" by simp
    with False show ?thesis
      by (auto simp add: less_Suc_eq)
  qed
qed

lemma lastIndexOf_last:
  "(lastIndexOf xs P = - 1 \<and> (\<forall>x \<in> set xs. \<not> P x)) \<or>
   (0 \<le> lastIndexOf xs P \<and> nat (lastIndexOf xs P) < length xs \<and> P (xs ! nat (lastIndexOf xs P))
      \<and> (\<forall>j. nat (lastIndexOf xs P) < j \<and> j < length xs \<longrightarrow> \<not> P (xs ! j)))"
  using lastIndexOf_from_last [of "length xs" xs P]
  by (auto simp add: lastIndexOf_def in_set_conv_nth)

lemma cyclicCalls_after_change:
  assumes "highlightedIndex p \<noteq> highlightedIndex p0"
  shows "cyclicCalls (snd (commit s0 p0 v0)) p =
           cyclicEffect (flatOptions p) (prevHighlightedIndex (Some (highlightedIndex p0)))
             (highlightedIndex p)"
  using assms by (simp add: cyclicCalls_def commit_state depsChanged_def)

lemma cyclicEffect_wrap_down:
  assumes "prev \<le> findIndex flat notDisabled" and "hi = int (length flat) - 1"
  shows "ScrollToIndex (lastIndexOf flat notDisabled) None \<in> set (cyclicEffect flat prev hi)"
  using assms by (simp add: cyclicEffect_def Let_def)

lemma cyclicEffect_wrap_up:
  assumes "lastIndexOf flat notDisabled \<le> prev" and "hi = 0"
  shows "ScrollToIndex 0 None \<in> set (cyclicEffect flat prev hi)"
  using assms by (simp add: cyclicEffect_def Let_def)

lemma findIndex_ABC: "findIndex [optionA, optionB, optionC] notDisabled = 0"
  by (simp add: findIndex_def notDisabled_def optionA_def)

lemma lastIndexOf_ABC: "lastIndexOf [optionA, optionB, optionC] notDisabled = 2"
  by (simp add: lastIndexOf_def notDisabled_def optionC_def)

text \<open>
  C1. Let the highlighted index change from one render to the next. If the previous index
  was at or before the index of the first non-disabled option and the new index is the
  last flat index, the commit calls \<open>scrollToIndex\<close> on the index of the last non-disabled
  option; if the previous index was at or after the index of the last non-disabled option
  and the new index is 0, the commit calls \<open>scrollToIndex\<close> on 0. Both boundaries are
  positions in the flat list, which counts the disabled options too: each is -1 when
  every option is disabled, and otherwise the position of a non-disabled option with only
  disabled options before it (after it, for the last).
\<close>

theorem cyclic_wrap_around:
  assumes change: "highlightedIndex p \<noteq> highlightedIndex p0"
  shows
    "(highlightedIndex p0 \<le> findIndex (flatOptions p) notDisabled
        \<and> highlightedIndex p = int (length (flatOptions p)) - 1
      \<longrightarrow> ScrollToIndex (lastIndexOf (flatOptions p) notDisabled) None
            \<in> set (fst (commit (snd (commit s0 p0 v0)) p v)))
     \<and> (lastIndexOf (flatOptions p) notDisabled \<le> highlightedIndex p0
        \<and> highlightedIndex p = 0
      \<longrightarrow> ScrollToIndex 0 None \<in> set (fst (commit (snd (commit s0 p0 v0)) p v)))
     \<and> (findIndex (flatOptions p) notDisabled = - 1 \<and> (\<forall>x \<in> set (flatOptions p). disabled x)
        \<or> 0 \<le> findIndex (flatOptions p) notDisabled
          \<and> nat (findIndex (flatOptions p) notDisabled) < length (flatOptions p)
          \<and> \<not> disabled (flatOptions p ! nat (findIndex (flatOptions p) notDisabled))
          \<and> (\<forall>j < nat (findIndex (flatOptions p) notDisabled). disabled (flatOptions p ! j)))
     \<and> (lastIndexOf (flatOptions p) notDisabled = - 1 \<and> (\<forall>x \<in> set (flatOptions p). disabled x)
        \<or> 0 \<le> lastIndexOf (flatOptions p) notDisabled
          \<and> nat (lastIndexOf (flatOptions p) notDisabled) < length (flatOptions p)
          \<and> \<not> disabled (flatOptions p ! nat (lastIndexOf (flatOptions p) notDisabled))
          \<and> (\<forall>j. nat (lastIndexOf (flatOptions p) notDisabled) < j \<and> j < length (flatOptions p)
                \<longrightarrow> disabled (flatOptions p ! j)))"
proof (intro conjI impI)
  let ?s = "snd (commit s0 p0 v0)"
  let ?prev = "prevHighlightedIndex (Some (highlightedIndex p0))"
  have calls: "set (cyclicCalls ?s p) \<subseteq> set (fst (commit ?s p v))"
    by (auto simp add: commit_calls)
  have eff: "cyclicCalls ?s p = cyclicEffect (flatOptions p) ?prev (highlightedIndex p)"
    using change by (rule cyclicCalls_after_change)
  {
    assume a: "highlightedIndex p0 \<le> findIndex (flatOptions p) notDisabled
        \<and> highlightedIndex p = int (length (flatOptions p)) - 1"
    have "?prev \<le> highlightedIndex p0" by (rule prevHighlightedIndex_le)
    with a have "?prev \<le> findIndex (flatOptions p) notDisabled" by linarith
    with a have "ScrollToIndex (lastIndexOf (flatOptions p) notDisabled) None
        \<in> set (cyclicEffect (flatOptions p) ?prev (highlightedIndex p))"
      by (simp add: cyclicEffect_wrap_down)
    with eff calls
    show "ScrollToIndex (lastIndexOf (flatOptions p) notDisabled) None
            \<in> set (fst (commit ?s p v))" by auto
  }
  {
    assume a: "lastIndexOf (flatOptions p) notDisabled \<le> highlightedIndex p0
        \<and> highlightedIndex p = 0"
    with change have "highlightedIndex p0 \<noteq> 0" by simp
    then have "?prev = highlightedIndex p0" by (rule prevHighlightedIndex_nonzero)
    with a have "ScrollToIndex 0 None
        \<in> set (cyclicEffect (flatOptions p) ?prev (highlightedIndex p))"
      by (simp add: cyclicEffect_wrap_up)
    with eff calls
    show "ScrollToIndex 0 None \<in> set (fst (commit ?s p v))" by auto
  }
  show "findIndex (flatOptions p) notDisabled = - 1 \<and> (\<forall>x \<in> set (flatOptions p). disabled x)
        \<or> 0 \<le> findIndex (flatOptions p) notDisabled
          \<and> nat (findIndex (flatOptions p) notDisabled) < length (flatOptions p)
          \<and> \<not> disabled (flatOptions p ! nat (findIndex (flatOptions p) notDisabled))
          \<and> (\<forall>j < nat (findIndex (flatOptions p) notDisabled). disabled (flatOptions p ! j))"
    using findIndex_first [of "flatOptions p" notDisabled] by (simp add: notDisabled_def)
  show "lastIndexOf (flatOptions p) notDisabled = - 1 \<and> (\<forall>x \<in> set (flatOptions p). disabled x)
        \<or> 0 \<le> lastIndexOf (flatOptions p) notDisabled
          \<and> nat (lastIndexOf (flatOptions p) notDisabled) < length (flatOptions p)
          \<and> \<not> disabled (flatOptions p ! nat (lastIndexOf (flatOptions p) notDisabled))
          \<and> (\<forall>j. nat (lastIndexOf (flatOptions p) notDisabled) < j \<and> j < length (flatOptions p)
                \<longrightarrow> disabled (flatOptions p ! j))"
    using lastIndexOf_last [of "flatOptions p" notDisabled] by (simp add: notDisabled_def)
qed

theorem cyclic_wrap_around_witness:
  "ScrollToIndex 2 None
     \<in> set (fst (commit (snd (commit initialVState (listABC 0 True) (rowsOf [0, 1, 2])))
                 (listABC 2 True) (rowsOf [0, 1, 2])))
   \<and> ScrollToIndex 0 None
     \<in> set (fst (commit (snd (commit initialVState (listABC 2 True) (rowsOf [0, 1, 2])))
                 (listABC 0 True) (rowsOf [0, 1, 2])))"
proof -
  have down: "highlightedIndex (listABC 2 True) \<noteq> highlightedIndex (listABC 0 True)"
    and up: "highlightedIndex (listABC 0 True) \<noteq> highlightedIndex (listABC 2 True)"
    by (simp_all add: listABC_simps)
  have first: "highlightedIndex (listABC 0 True)
        \<le> findIndex (flatOptions (listABC 2 True)) notDisabled
      \<and> highlightedIndex (listABC 2 True) = int (length (flatOptions (listABC 2 True))) - 1"
    by (simp add: listABC_simps findIndex_ABC)
  have last: "lastIndexOf (flatOptions (listABC 0 True)) notDisabled
        \<le> highlightedIndex (listABC 2 True)
      \<and> highlightedIndex (listABC 0 True) = 0"
    by (simp add: listABC_simps lastIndexOf_ABC)
  from cyclic_wrap_around
    [OF down, of initialVState "rowsOf [0, 1, 2]" "rowsOf [0, 1, 2]"] first
  have "ScrollToIndex (lastIndexOf (flatOptions (listABC 2 True)) notDisabled) None
     \<in> set (fst (commit (snd (commit initialVState (listABC 0 True) (rowsOf [0, 1, 2])))
                 (listABC 2 True) (rowsOf [0, 1, 2])))"
    by blast
  then have one: "ScrollToIndex 2 None
     \<in> set (fst (commit (snd (commit initialVState (listABC 0 True) (rowsOf [0, 1, 2])))
                 (listABC 2 True) (rowsOf [0, 1, 2])))"
    by (simp only: listABC_simps lastIndexOf_ABC)
  from cyclic_wrap_around
    [OF up, of initialVState "rowsOf [0, 1, 2]" "rowsOf [0, 1, 2]"] last
  have two: "ScrollToIndex 0 None
     \<in> set (fst (commit (snd (commit initialVState (listABC 2 True) (rowsOf [0, 1, 2])))
                 (listABC 0 True) (rowsOf [0, 1, 2])))"
    by blast
  from one two show ?thesis by (rule conjI)
qed

section \<open>The height-invalidation key\<close>

lemma keyInvariant_initial: "keyInvariant initialVState"
  by (simp add: keyInvariant_def initialVState_def)

lemma nextKey_value:
  "keyInvariant s \<Longrightarrow> nextKey s p v = invalidateKeyValue v (flatOptions p)"
  by (auto simp add: keyInvariant_def nextKey_def depsChanged_def invalidateKeyValue_def
      split: option.splits)

lemma keyInvariant_commit: "keyInvariant s \<Longrightarrow> keyInvariant (snd (commit s p v))"
  by (simp add: keyInvariant_def [of "snd (commit s p v)"] commit_state nextKey_value
      invalidateKeyValue_def)

lemma keyInvariant_commits: "keyInvariant s \<Longrightarrow> keyInvariant (commits s rs)"
  by (induction rs arbitrary: s) (auto simp add: keyInvariant_commit)

text \<open>
  C4. After any sequence of renders from the mount, the key left by a commit is 1 when the
  virtualizer rendered at most one row, and the number of flat options when it rendered
  more than one. So while more than one row is rendered, the key of the next commit
  differs from the present one whenever the number of flat options differs.
\<close>

theorem height_key_deferral:
  "(length (virtualItems v) \<le> 1 \<longrightarrow>
      visibleOptionsInvalidateKey (snd (commit (commits initialVState rs) p v)) = 1)
   \<and> (1 < length (virtualItems v) \<longrightarrow>
      visibleOptionsInvalidateKey (snd (commit (commits initialVState rs) p v))
        = length (flatOptions p))
   \<and> (1 < length (virtualItems v) \<and> 1 < length (virtualItems v')
        \<and> length (flatOptions p') \<noteq> length (flatOptions p) \<longrightarrow>
      visibleOptionsInvalidateKey
          (snd (commit (snd (commit (commits initialVState rs) p v)) p' v'))
        \<noteq> visibleOptionsInvalidateKey (snd (commit (commits initialVState rs) p v)))"
proof -
  let ?s = "commits initialVState rs"
  have inv: "keyInvariant ?s"
    using keyInvariant_initial by (rule keyInvariant_commits)
  then have inv': "keyInvariant (snd (commit ?s p v))"
    by (rule keyInvariant_commit)
  have k: "visibleOptionsInvalidateKey (snd (commit ?s p v))
      = invalidateKeyValue v (flatOptions p)"
    using inv by (simp add: commit_state nextKey_value)
  have k': "visibleOptionsInvalidateKey (snd (commit (snd (commit ?s p v)) p' v'))
      = invalidateKeyValue v' (flatOptions p')"
    using inv' by (simp add: commit_state nextKey_value)
  show ?thesis
    unfolding k k' by (simp add: invalidateKeyValue_def)
qed

theorem height_key_deferral_witness:
  "visibleOptionsInvalidateKey
     (snd (commit (commits initialVState []) (listABC 0 True) (rowsOf [0]))) = 1
   \<and> visibleOptionsInvalidateKey
     (snd (commit (commits initialVState [(listABC 0 True, rowsOf [0])])
        (listABC 0 True) (rowsOf [0, 1, 2]))) = 3
   \<and> visibleOptionsInvalidateKey
     (snd (commit (snd (commit (commits initialVState []) (listABC 0 True) (rowsOf [0, 1, 2])))
        listG (rowsOf [0, 1])))
     \<noteq> visibleOptionsInvalidateKey
     (snd (commit (commits initialVState []) (listABC 0 True) (rowsOf [0, 1, 2])))"
proof -
  have few: "length (virtualItems (rowsOf [0])) \<le> 1"
    and many: "1 < length (virtualItems (rowsOf [0, 1, 2]))"
    by (simp_all add: rowsOf_simps)
  from height_key_deferral [of "rowsOf [0]" "[]" "listABC 0 True"] few
  have one: "visibleOptionsInvalidateKey
     (snd (commit (commits initialVState []) (listABC 0 True) (rowsOf [0]))) = 1"
    by blast
  from height_key_deferral
    [of "rowsOf [0, 1, 2]" "[(listABC 0 True, rowsOf [0])]" "listABC 0 True"] many
  have "visibleOptionsInvalidateKey
     (snd (commit (commits initialVState [(listABC 0 True, rowsOf [0])])
        (listABC 0 True) (rowsOf [0, 1, 2]))) = length (flatOptions (listABC 0 True))"
    by blast
  then have two: "visibleOptionsInvalidateKey
     (snd (commit (commits initialVState [(listABC 0 True, rowsOf [0])])
        (listABC 0 True) (rowsOf [0, 1, 2]))) = 3"
    by (simp add: listABC_simps)
  have shrunk: "1 < length (virtualItems (rowsOf [0, 1, 2]))
      \<and> 1 < length (virtualItems (rowsOf [0, 1]))
      \<and> length (flatOptions listG) \<noteq> length (flatOptions (listABC 0 True))"
    by (simp add: rowsOf_simps listABC_simps listG_def)
  from height_key_deferral
    [of "rowsOf [0, 1, 2]" "[]" "listABC 0 True" "rowsOf [0, 1]" listG] shrunk
  have three: "visibleOptionsInvalidateKey
     (snd (commit (snd (commit (commits initialVState []) (listABC 0 True) (rowsOf [0, 1, 2])))
        listG (rowsOf [0, 1])))
     \<noteq> visibleOptionsInvalidateKey
     (snd (commit (commits initialVState []) (listABC 0 True) (rowsOf [0, 1, 2])))"
    by blast
  from one two three show ?thesis by (intro conjI)
qed

section \<open>Group start indexes\<close>

lemma flatten_append: "flatten (xs @ ys) = flatten xs @ flatten ys"
  by (induction xs rule: flatten.induct) simp_all

text \<open>
  A key of the result either was in the accumulator already, or was written for a group
  of the list, at the number of flat options before it.
\<close>

lemma reduce_key:
  "groupStartIndexes_reduce xs cur idx acc k = Some j \<Longrightarrow>
     acc k = Some j \<or>
     (\<exists>i g. i < length xs \<and> j = idx + i \<and> xs ! i = Grp g
        \<and> k = cur + length (flatten (take i xs)))"
proof (induction xs cur idx acc rule: groupStartIndexes_reduce.induct)
  case (1 currentIndex idx acc)
  then show ?case by simp
next
  case (2 g rest currentIndex idx acc)
  from "2.prems" have
    "groupStartIndexes_reduce rest (currentIndex + length (groupOptions g)) (idx + 1)
       (acc(currentIndex \<mapsto> idx)) k = Some j" by simp
  from "2.IH" [OF this] show ?case
  proof
    assume a: "(acc(currentIndex \<mapsto> idx)) k = Some j"
    show ?thesis
    proof (cases "k = currentIndex")
      case True
      with a have "j = idx" by simp
      with True have "0 < length (Grp g # rest) \<and> j = idx + 0 \<and> (Grp g # rest) ! 0 = Grp g
        \<and> k = currentIndex + length (flatten (take 0 (Grp g # rest)))" by simp
      then show ?thesis by blast
    next
      case False
      with a show ?thesis by simp
    qed
  next
    assume "\<exists>i g'. i < length rest \<and> j = idx + 1 + i \<and> rest ! i = Grp g'
        \<and> k = currentIndex + length (groupOptions g) + length (flatten (take i rest))"
    then obtain i g' where i: "i < length rest" "j = idx + 1 + i" "rest ! i = Grp g'"
        "k = currentIndex + length (groupOptions g) + length (flatten (take i rest))" by blast
    then have "Suc i < length (Grp g # rest) \<and> j = idx + Suc i \<and> (Grp g # rest) ! Suc i = Grp g'
        \<and> k = currentIndex + length (flatten (take (Suc i) (Grp g # rest)))" by simp
    then show ?thesis by blast
  qed
next
  case (3 opt rest currentIndex idx acc)
  from "3.prems" have
    "groupStartIndexes_reduce rest (currentIndex + 1) (idx + 1) acc k = Some j" by simp
  from "3.IH" [OF this] show ?case
  proof
    assume "acc k = Some j"
    then show ?thesis by simp
  next
    assume "\<exists>i g'. i < length rest \<and> j = idx + 1 + i \<and> rest ! i = Grp g'
        \<and> k = currentIndex + 1 + length (flatten (take i rest))"
    then obtain i g' where i: "i < length rest" "j = idx + 1 + i" "rest ! i = Grp g'"
        "k = currentIndex + 1 + length (flatten (take i rest))" by blast
    then have "Suc i < length (Opt opt # rest) \<and> j = idx + Suc i
        \<and> (Opt opt # rest) ! Suc i = Grp g'
        \<and> k = currentIndex + length (flatten (take (Suc i) (Opt opt # rest)))" by simp
    then show ?thesis by blast
  qed
qed

lemma groupStartIndexes_key:
  assumes "groupStartIndexes opts k = Some j"
  shows "j < length opts \<and> (\<exists>g. opts ! j = Grp g) \<and> k = length (flatten (take j opts))"
  using reduce_key [of opts 0 0 Map.empty k j] assms
  by (auto simp add: groupStartIndexes_def)

lemma first_member:
  assumes "j < length opts" and "opts ! j = Grp g" and "groupOptions g \<noteq> []"
  shows "length (flatten (take j opts)) < length (flatten opts)
    \<and> flatten opts ! length (flatten (take j opts)) = hd (groupOptions g)"
proof -
  from assms(1,2) have "drop j opts = Grp g # drop (Suc j) opts"
    by (simp add: Cons_nth_drop_Suc [symmetric])
  moreover have "flatten opts = flatten (take j opts @ drop j opts)" by simp
  ultimately have "flatten opts
      = flatten (take j opts) @ groupOptions g @ flatten (drop (Suc j) opts)"
    by (simp only: flatten_append flatten.simps)
  with assms(3) show ?thesis
    by (cases "groupOptions g") (simp_all add: nth_append)
qed

lemma groupStartIndexes_ZG: "groupStartIndexes [Opt optionZ, Grp groupG] = [1 \<mapsto> 1]"
  by (simp add: groupStartIndexes_def)

lemma useMemo_reuse:
  "memoCell ms = Some (optionsRef p, stored) \<Longrightarrow> useMemo_groupStartIndexes ms p = (stored, ms)"
  by (simp add: useMemo_groupStartIndexes_def Let_def)

lemma useMemo_recompute:
  assumes "memoCell ms = None \<or> (\<exists>dep stored. memoCell ms = Some (dep, stored) \<and> dep \<noteq> optionsRef p)"
  shows "useMemo_groupStartIndexes ms p
     = (groupStartIndexes (options p),
        \<lparr>memoCell = Some (optionsRef p, groupStartIndexes (options p)),
         computations = computations ms + 1\<rparr>)"
  using assms by (auto simp add: useMemo_groupStartIndexes_def Let_def)

lemma useMemo_computations:
  "computations (snd (useMemo_groupStartIndexes ms p)) \<le> computations ms + 1"
  by (simp add: useMemo_groupStartIndexes_def Let_def split: option.splits)

lemma renderPass_eq:
  "renderPass ms p v
     = (render p (fst (useMemo_groupStartIndexes ms p)) v, snd (useMemo_groupStartIndexes ms p))"
  by (simp add: renderPass_def split_def Let_def)

text \<open>
  C2, as amended. For the options \<open>Z\<close> followed by the group \<open>G\<close> of \<open>X\<close> and \<open>Y\<close>: the
  flattened sequence is \<open>Z, X, Y\<close>; the map has the one key 1, whose value 1 is the position
  of \<open>G\<close> in the options; the row of flat index 1 renders the header of \<open>G\<close> above \<open>X\<close>. For
  every options list, a key of the map is the number of flat options before some group of
  the list, and its value the position of that group; when the group has members, the key
  is the flat index of its first member. At a render whose options list is the one of the
  memo cell (by identity) the stored map is used and nothing is computed; otherwise the
  map is computed, once; no render computes it more than once, however many rows it has.
\<close>

theorem group_start_indexes:
  "flatten [Opt optionZ, Grp groupG] = [optionZ, optionX, optionY]
   \<and> dom (groupStartIndexes [Opt optionZ, Grp groupG]) = {1}
   \<and> groupStartIndexes [Opt optionZ, Grp groupG] 1 = Some 1
   \<and> [Opt optionZ, Grp groupG] ! 1 = Grp groupG
   \<and> renderRow listZG (groupStartIndexes (options listZG)) \<lparr>index = 1, start = y\<rparr>
       = Inr (VirtualRow 1 False y [Optgroup (Some ''G''), OptionNode optionX 1])
   \<and> (groupStartIndexes opts k = Some j \<longrightarrow>
        j < length opts
        \<and> (\<exists>g. opts ! j = Grp g \<and> k = length (flatten (take j opts))
              \<and> (groupOptions g \<noteq> [] \<longrightarrow>
                    k < length (flatten opts) \<and> flatten opts ! k = hd (groupOptions g))))
   \<and> (memoCell ms = Some (optionsRef p, stored) \<longrightarrow>
        renderPass ms p v = (render p stored v, ms))
   \<and> (memoCell ms = None
        \<or> (\<exists>dep stored. memoCell ms = Some (dep, stored) \<and> dep \<noteq> optionsRef p) \<longrightarrow>
        renderPass ms p v
          = (render p (groupStartIndexes (options p)) v,
             \<lparr>memoCell = Some (optionsRef p, groupStartIndexes (options p)),
              computations = computations ms + 1\<rparr>))
   \<and> computations (snd (renderPass ms p v)) \<le> computations ms + 1"
proof (intro conjI impI)
  show "flatten [Opt optionZ, Grp groupG] = [optionZ, optionX, optionY]"
    by (simp add: groupG_def)
  show "dom (groupStartIndexes [Opt optionZ, Grp groupG]) = {1}"
    unfolding groupStartIndexes_ZG by simp
  show "groupStartIndexes [Opt optionZ, Grp groupG] 1 = Some 1"
    unfolding groupStartIndexes_ZG by simp
  show "[Opt optionZ, Grp groupG] ! 1 = Grp groupG" by simp
  show "renderRow listZG (groupStartIndexes (options listZG)) \<lparr>index = 1, start = y\<rparr>
       = Inr (VirtualRow 1 False y [Optgroup (Some ''G''), OptionNode optionX 1])"
    by (simp add: listZG_def renderRow_def rowGroup_def groupStartIndexes_def groupG_def)
  show "computations (snd (renderPass ms p v)) \<le> computations ms + 1"
    using useMemo_computations [of ms p] by (simp add: renderPass_eq)
next
  assume "memoCell ms = Some (optionsRef p, stored)"
  then show "renderPass ms p v = (render p stored v, ms)"
    by (simp add: renderPass_eq useMemo_reuse)
next
  assume "memoCell ms = None
        \<or> (\<exists>dep stored. memoCell ms = Some (dep, stored) \<and> dep \<noteq> optionsRef p)"
  then show "renderPass ms p v
          = (render p (groupStartIndexes (options p)) v,
             \<lparr>memoCell = Some (optionsRef p, groupStartIndexes (options p)),
              computations = computations ms + 1\<rparr>)"
    by (simp add: renderPass_eq useMemo_recompute)
next
  assume a: "groupStartIndexes opts k = Some j"
  then have j: "j < length opts" and "\<exists>g. opts ! j = Grp g"
    and k: "k = length (flatten (take j opts))"
    using groupStartIndexes_key by blast+
  then obtain g where g: "opts ! j = Grp g" by blast
  from j show "j < length opts" .
  have "groupOptions g \<noteq> [] \<longrightarrow>
          k < length (flatten opts) \<and> flatten opts ! k = hd (groupOptions g)"
    using first_member [OF j g] k by simp
  with g k
  show "\<exists>g. opts ! j = Grp g \<and> k = length (flatten (take j opts))
              \<and> (groupOptions g \<noteq> [] \<longrightarrow>
                    k < length (flatten opts) \<and> flatten opts ! k = hd (groupOptions g))"
    by blast
qed

text \<open>
  The claim as first stated lets every key be a flat index at the first member of a group.
  For an empty group followed by the option \<open>Z\<close> the map has the key 0, although no group
  has a member: flat index 0 is \<open>Z\<close>, and its row shows the header of the empty group.
\<close>

theorem empty_group_key:
  "groupStartIndexes (options listEZ) 0 = Some 0
   \<and> options listEZ ! 0 = Grp emptyGroup
   \<and> groupOptions emptyGroup = []
   \<and> flatten (options listEZ) = [optionZ]
   \<and> renderRow listEZ (groupStartIndexes (options listEZ)) \<lparr>index = 0, start = 0\<rparr>
      = Inr (VirtualRow 0 False 0 [Optgroup (Some ''E''), OptionNode optionZ 0])"
  by (simp add: listEZ_def groupStartIndexes_def emptyGroup_def renderRow_def rowGroup_def)

theorem group_start_indexes_witness:
  "groupStartIndexes (options listZG) 1 = Some 1
   \<and> flatten (options listZG) ! 1 = optionX
   \<and> renderPass \<lparr>memoCell = Some (0, [1 \<mapsto> 1]), computations = 1\<rparr> listZG (rowsOf [])
       = (Inr (Root [Inner 0 []]), \<lparr>memoCell = Some (0, [1 \<mapsto> 1]), computations = 1\<rparr>)
   \<and> computations (snd (renderPass initialMemoState listZG (rowsOf []))) = 1"
proof -
  have opts: "options listZG = [Opt optionZ, Grp groupG]" by (simp add: listZG_def)
  have key: "groupStartIndexes (options listZG) 1 = Some 1"
    unfolding opts groupStartIndexes_ZG by simp
  from group_start_indexes [of _ "options listZG" 1 1] key
  obtain g where g: "options listZG ! 1 = Grp g"
    and m: "groupOptions g \<noteq> [] \<longrightarrow> flatten (options listZG) ! 1 = hd (groupOptions g)"
    by blast
  from g have "g = groupG" by (simp add: opts)
  with m have first: "flatten (options listZG) ! 1 = optionX" by (simp add: groupG_def)
  have cell: "memoCell \<lparr>memoCell = Some (0, [1 \<mapsto> (1::nat)]), computations = 1\<rparr>
      = Some (optionsRef listZG, [1 \<mapsto> 1])"
    by (simp add: listZG_def)
  from group_start_indexes
    [of _ _ _ _ "\<lparr>memoCell = Some (0, [1 \<mapsto> 1]), computations = 1\<rparr>" listZG "[1 \<mapsto> 1]"
        "rowsOf []"] cell
  have "renderPass \<lparr>memoCell = Some (0, [1 \<mapsto> 1]), computations = 1\<rparr> listZG (rowsOf [])
       = (render listZG [1 \<mapsto> 1] (rowsOf []),
          \<lparr>memoCell = Some (0, [1 \<mapsto> 1]), computations = 1\<rparr>)"
    by blast
  moreover have "render listZG [1 \<mapsto> 1] (rowsOf []) = Inr (Root [Inner 0 []])"
    by (simp add: render_def rowsOf_simps renderPlaceholder_def listZG_def)
  ultimately have reuse:
    "renderPass \<lparr>memoCell = Some (0, [1 \<mapsto> 1]), computations = 1\<rparr> listZG (rowsOf [])
       = (Inr (Root [Inner 0 []]), \<lparr>memoCell = Some (0, [1 \<mapsto> 1]), computations = 1\<rparr>)"
    by simp
  have none: "memoCell initialMemoState = None" by (simp add: initialMemoState_def)
  from group_start_indexes [of _ _ _ _ initialMemoState listZG _ "rowsOf []"] none
  have "renderPass initialMemoState listZG (rowsOf [])
          = (render listZG (groupStartIndexes (options listZG)) (rowsOf []),
             \<lparr>memoCell = Some (optionsRef listZG, groupStartIndexes (options listZG)),
              computations = computations initialMemoState + 1\<rparr>)"
    by blast
  then have once: "computations (snd (renderPass initialMemoState listZG (rowsOf []))) = 1"
    by (simp add: initialMemoState_def)
  from key first reuse once show ?thesis by blast
qed

section \<open>The empty state\<close>










section \<open>The modifiers of the popover\<close>

lemma flip_filter:
  "filter (\<lambda>m. name m = ''flip'') (getModifiers p arrowElement)
     = (if preventFlip p = Some True
          then [\<lparr>name = ''flip'', modifierOptions = FlipOptions []\<rparr>] else [])
       @ (case fallbackPlacements p of
            None \<Rightarrow> []
          | Some placements \<Rightarrow> [\<lparr>name = ''flip'', modifierOptions = FlipOptions placements\<rparr>])"
  by (simp add: getModifiers_def truthy_def split: option.splits)

lemma offset_member:
  "\<lparr>name = ''offset'', modifierOptions = OffsetOptions (orDefault (offset p) (0, 0))\<rparr>
     \<in> set (getModifiers p arrowElement)"
  by (simp add: getModifiers_def)

lemma arrow_member:
  "(\<exists>m \<in> set (getModifiers p arrowElement). name m = ''arrow'') = (withArrow p = Some True)"
  by (cases "withArrow p") (auto simp add: getModifiers_def orDefault_def split: option.splits)

lemma preventOverflow_member:
  "(\<exists>m \<in> set (getModifiers p arrowElement). name m = ''preventOverflow'')
     = (preventOverflow p \<noteq> Some False)"
  by (cases "preventOverflow p")
    (auto simp add: getModifiers_def orDefault_def split: option.splits)

text \<open>
  C3, as amended. The modifier list always holds the offset modifier, with the given
  offset or (0, 0); it holds a modifier named arrow exactly when \<open>withArrow\<close> is true; its
  flip modifiers are, in this order, one with an empty list of fallback placements when
  \<open>preventFlip\<close> is true and one with the list of the caller when \<open>fallbackPlacements\<close> is
  given, each on its own account, so both when both hold; it holds a modifier named
  preventOverflow exactly when \<open>preventOverflow\<close> is not false.
\<close>

theorem modifier_assembly:
  "\<lparr>name = ''offset'', modifierOptions = OffsetOptions (orDefault (offset p) (0, 0))\<rparr>
       \<in> set (getModifiers p arrowElement)
   \<and> ((\<exists>m \<in> set (getModifiers p arrowElement). name m = ''arrow'') = (withArrow p = Some True))
   \<and> filter (\<lambda>m. name m = ''flip'') (getModifiers p arrowElement)
       = (if preventFlip p = Some True
            then [\<lparr>name = ''flip'', modifierOptions = FlipOptions []\<rparr>] else [])
         @ (case fallbackPlacements p of
              None \<Rightarrow> []
            | Some placements \<Rightarrow> [\<lparr>name = ''flip'', modifierOptions = FlipOptions placements\<rparr>])
   \<and> ((\<exists>m \<in> set (getModifiers p arrowElement). name m = ''preventOverflow'')
        = (preventOverflow p \<noteq> Some False))"
  using offset_member arrow_member flip_filter preventOverflow_member
  by (intro conjI)

text \<open>
  The claim as first stated allows one flip modifier or the other, never both. With
  \<open>preventFlip\<close> true and a list of fallback placements given, the list holds both.
\<close>

theorem both_flip_modifiers:
  "getModifiers flipProps None
     = [\<lparr>name = ''offset'', modifierOptions = OffsetOptions (0, 0)\<rparr>,
        \<lparr>name = ''flip'', modifierOptions = FlipOptions []\<rparr>,
        \<lparr>name = ''flip'', modifierOptions = FlipOptions [Bottom]\<rparr>,
        \<lparr>name = ''preventOverflow'', modifierOptions = PreventOverflowOptions False\<rparr>]"
  by (simp add: getModifiers_def flipProps_def bareProps_def orDefault_def truthy_def)

theorem modifier_assembly_witness:
  "filter (\<lambda>m. name m = ''flip'') (getModifiers flipProps None)
     = [\<lparr>name = ''flip'', modifierOptions = FlipOptions []\<rparr>,
        \<lparr>name = ''flip'', modifierOptions = FlipOptions [Bottom]\<rparr>]
   \<and> (\<exists>m \<in> set (getModifiers flipProps None). name m = ''preventOverflow'')"
proof -
  have flags: "preventFlip flipProps = Some True" "fallbackPlacements flipProps = Some [Bottom]"
    "preventOverflow flipProps = None"
    by (simp_all add: flipProps_def bareProps_def)
  from modifier_assembly [of flipProps None]
  have "filter (\<lambda>m. name m = ''flip'') (getModifiers flipProps None)
       = (if preventFlip flipProps = Some True
            then [\<lparr>name = ''flip'', modifierOptions = FlipOptions []\<rparr>] else [])
         @ (case fallbackPlacements flipProps of
              None \<Rightarrow> []
            | Some placements \<Rightarrow> [\<lparr>name = ''flip'', modifierOptions = FlipOptions placements\<rparr>])"
    and "(\<exists>m \<in> set (getModifiers flipProps None). name m = ''preventOverflow'')
        = (preventOverflow flipProps \<noteq> Some False)"
    by blast+
  then show ?thesis by (simp add: flags)
qed

section \<open>The resize observer and the width of the popover\<close>

lemma popoverCommit_state:
  "referenceElement (snd (popoverCommit s p)) = anchorElement p"
  "observerDeps (snd (popoverCommit s p)) = Some (observerDepsOf p)"
  by (simp_all add: popoverCommit_def)

lemma watched_run:
  "watched w (cleanup old @ NewObserver # (case a of None \<Rightarrow> [] | Some anchor \<Rightarrow> [Observe anchor]))
     = a"
  by (cases old; cases a) (simp_all add: cleanup_def)

lemma watched_mount:
  "watched w (fst (popoverCommit (mountState p) p)) = anchorElement p"
  by (simp add: popoverCommit_def mountState_def observerEffect_def depsChanged_def watched_run)

lemma watched_rerender:
  "watched (anchorElement p0) (fst (popoverCommit (snd (popoverCommit s0 p0)) p))
     = anchorElement p"
  by (auto simp add: popoverCommit_def observerEffect_def depsChanged_def watched_run
      observerDepsOf_def)

lemma anchor_change_events:
  "anchorElement p \<noteq> anchorElement p0 \<Longrightarrow>
     fst (popoverCommit (snd (popoverCommit s0 p0)) p)
       = Disconnect # NewObserver
           # (case anchorElement p of None \<Rightarrow> [] | Some anchor \<Rightarrow> [Observe anchor])"
  by (auto simp add: popoverCommit_def observerEffect_def depsChanged_def cleanup_def
      observerDepsOf_def)

lemma no_observe_without_anchor:
  "anchorElement p = None \<Longrightarrow> Observe e \<notin> set (fst (popoverCommit s p))"
  by (auto simp add: popoverCommit_def observerEffect_def cleanup_def split: option.splits)

lemma updatePopoverWidth_cases:
  "updatePopoverWidth p store =
     (if useAnchorWidth p = Some True \<and> update p \<noteq> None \<and> store (the (update p)) \<noteq> None
        then [the (store (the (update p)))] else [])"
  by (auto simp add: updatePopoverWidth_def truthy_def split: option.splits)

lemma widthProps_simps:
  "anchorElement widthProps = Some 1" "useAnchorWidth widthProps = Some True"
  "update widthProps = Some 7"
  by (simp_all add: widthProps_def bareProps_def)

lemma movedProps_simps:
  "anchorElement movedProps = Some 2" "useAnchorWidth movedProps = Some True"
  "update movedProps = Some 7"
  by (simp_all add: movedProps_def bareProps_def)

text \<open>
  C8, as amended. After the mount, and after every later commit, the live observer
  watches the anchor of that render, and nothing when the anchor is null: with a null
  anchor no element is ever observed. When the anchor changes, the commit first
  disconnects the old observer, then creates a new one for the new anchor; the unmount
  disconnects the observer. On an observed size change the callback invokes the function
  stored in the \<open>update\<close> ref when \<open>useAnchorWidth\<close> is true, the caller has supplied that
  ref and it holds a function; in every other case it invokes nothing. At the render that
  follows a commit, with \<open>useAnchorWidth\<close> true, the width of the panel is the
  \<open>offsetWidth\<close> of the anchor as measured at that render.
\<close>

theorem resize_width_resync:
  "watched w (fst (popoverCommit (mountState p) p)) = anchorElement p
   \<and> watched (anchorElement p0) (fst (popoverCommit (snd (popoverCommit s0 p0)) p))
       = anchorElement p
   \<and> (anchorElement p = None \<longrightarrow> Observe e \<notin> set (fst (popoverCommit s p)))
   \<and> (anchorElement p \<noteq> anchorElement p0 \<longrightarrow>
        fst (popoverCommit (snd (popoverCommit s0 p0)) p)
          = Disconnect # NewObserver
              # (case anchorElement p of None \<Rightarrow> [] | Some anchor \<Rightarrow> [Observe anchor]))
   \<and> unmount (snd (popoverCommit s p)) = [Disconnect]
   \<and> (useAnchorWidth p = Some True \<and> update p = Some r \<and> store r = Some f \<longrightarrow>
        updatePopoverWidth p store = [f])
   \<and> (useAnchorWidth p \<noteq> Some True \<or> update p = None \<or> store (the (update p)) = None \<longrightarrow>
        updatePopoverWidth p store = [])
   \<and> (useAnchorWidth p = Some True \<and> anchorElement p = Some a \<longrightarrow>
        popoverWidth p (snd (popoverCommit s p)) offsetWidth = Some (offsetWidth a))"
proof (intro conjI impI)
  show "watched w (fst (popoverCommit (mountState p) p)) = anchorElement p"
    by (rule watched_mount)
  show "watched (anchorElement p0) (fst (popoverCommit (snd (popoverCommit s0 p0)) p))
       = anchorElement p"
    by (rule watched_rerender)
  show "unmount (snd (popoverCommit s p)) = [Disconnect]"
    by (simp add: unmount_def popoverCommit_state cleanup_def)
next
  assume "anchorElement p = None"
  then show "Observe e \<notin> set (fst (popoverCommit s p))"
    by (rule no_observe_without_anchor)
next
  assume "anchorElement p \<noteq> anchorElement p0"
  then show "fst (popoverCommit (snd (popoverCommit s0 p0)) p)
          = Disconnect # NewObserver
              # (case anchorElement p of None \<Rightarrow> [] | Some anchor \<Rightarrow> [Observe anchor])"
    by (rule anchor_change_events)
next
  assume "useAnchorWidth p = Some True \<and> update p = Some r \<and> store r = Some f"
  then show "updatePopoverWidth p store = [f]"
    by (simp add: updatePopoverWidth_cases)
next
  assume "useAnchorWidth p \<noteq> Some True \<or> update p = None \<or> store (the (update p)) = None"
  then show "updatePopoverWidth p store = []"
    by (auto simp add: updatePopoverWidth_cases)
next
  assume "useAnchorWidth p = Some True \<and> anchorElement p = Some a"
  then show "popoverWidth p (snd (popoverCommit s p)) offsetWidth = Some (offsetWidth a)"
    by (simp add: popoverWidth_def popoverCommit_state truthy_def)
qed

text \<open>
  The claim as first stated has the recompute handle invoked on every observed size change
  once \<open>useAnchorWidth\<close> is enabled. With \<open>useAnchorWidth\<close> true, an anchor, and no \<open>update\<close>
  ref supplied, the callback of the observer invokes nothing.
\<close>

theorem resize_without_update_ref:
  "updatePopoverWidth noRefProps unsetRefs = []
   \<and> useAnchorWidth noRefProps = Some True
   \<and> anchorElement noRefProps = Some 1
   \<and> fst (popoverCommit (mountState noRefProps) noRefProps) = [NewObserver, Observe 1]"
  by (simp add: updatePopoverWidth_def noRefProps_def bareProps_def popoverCommit_def
      mountState_def observerEffect_def depsChanged_def cleanup_def)

theorem resize_width_resync_witness:
  "updatePopoverWidth widthProps (unsetRefs(7 := Some 3)) = [3]
   \<and> updatePopoverWidth bareProps unsetRefs = []
   \<and> fst (popoverCommit (snd (popoverCommit (mountState widthProps) widthProps)) movedProps)
       = [Disconnect, NewObserver, Observe 2]
   \<and> watched None (fst (popoverCommit (mountState widthProps) widthProps)) = Some 1
   \<and> Observe 1 \<notin> set (fst (popoverCommit (mountState bareProps) bareProps))
   \<and> popoverWidth widthProps (snd (popoverCommit (mountState widthProps) widthProps))
        (\<lambda>e. 200) = Some 200"
proof -
  have h6: "useAnchorWidth widthProps = Some True \<and> update widthProps = Some 7
      \<and> (unsetRefs(7 := Some 3)) 7 = Some 3"
    by (simp add: widthProps_simps)
  have c6: "updatePopoverWidth widthProps (unsetRefs(7 := Some 3)) = [3]"
    using resize_width_resync
      [where p = widthProps and r = 7 and store = "unsetRefs(7 := Some 3)" and f = 3] h6
    by blast
  have h7: "useAnchorWidth bareProps \<noteq> Some True \<or> update bareProps = None
      \<or> unsetRefs (the (update bareProps)) = None"
    by (simp add: bareProps_def)
  have c7: "updatePopoverWidth bareProps unsetRefs = []"
    using resize_width_resync [where p = bareProps and store = unsetRefs] h7 by blast
  have h4: "anchorElement movedProps \<noteq> anchorElement widthProps"
    by (simp add: widthProps_simps movedProps_simps)
  have "fst (popoverCommit (snd (popoverCommit (mountState widthProps) widthProps)) movedProps)
       = Disconnect # NewObserver
           # (case anchorElement movedProps of None \<Rightarrow> [] | Some anchor \<Rightarrow> [Observe anchor])"
    using resize_width_resync
      [where p = movedProps and ?p0.0 = widthProps and ?s0.0 = "mountState widthProps"] h4
    by blast
  then have c4: "fst (popoverCommit (snd (popoverCommit (mountState widthProps) widthProps))
        movedProps) = [Disconnect, NewObserver, Observe 2]"
    by (simp add: movedProps_simps)
  have "watched None (fst (popoverCommit (mountState widthProps) widthProps))
      = anchorElement widthProps"
    using resize_width_resync [where p = widthProps and w = None] by blast
  then have c1: "watched None (fst (popoverCommit (mountState widthProps) widthProps)) = Some 1"
    by (simp add: widthProps_simps)
  have h3: "anchorElement bareProps = None" by (simp add: bareProps_def)
  have c3: "Observe 1 \<notin> set (fst (popoverCommit (mountState bareProps) bareProps))"
    using resize_width_resync [where p = bareProps and s = "mountState bareProps" and e = 1] h3
    by blast
  have h8: "useAnchorWidth widthProps = Some True \<and> anchorElement widthProps = Some 1"
    by (simp add: widthProps_simps)
  have c8: "popoverWidth widthProps (snd (popoverCommit (mountState widthProps) widthProps))
        (\<lambda>e. 200) = Some 200"
    using resize_width_resync
      [where p = widthProps and s = "mountState widthProps" and a = 1
        and offsetWidth = "\<lambda>e. 200"] h8
    by blast
  from c6 c7 c4 c1 c3 c8 show ?thesis by blast
qed

section \<open>The recompute handle\<close>

lemma assignUpdate_keeps:
  "store r = Some f \<Longrightarrow> assignUpdate p updatePopper store r = Some f"
  by (auto simp add: assignUpdate_def split: option.splits)

lemma assignUpdates_keeps:
  "store r = Some f \<Longrightarrow> assignUpdates store renders r = Some f"
proof (induction renders arbitrary: store)
  case Nil
  then show ?case by simp
next
  case (Cons render renders)
  obtain p updatePopper where render: "render = (p, updatePopper)" by (cases render)
  from Cons.prems have "assignUpdate p updatePopper store r = Some f"
    by (rule assignUpdate_keeps)
  then have "assignUpdates (assignUpdate p updatePopper store) renders r = Some f"
    by (rule Cons.IH)
  then show ?case by (simp add: render)
qed

lemma assignUpdate_changes:
  "assignUpdate p updatePopper store \<noteq> store \<Longrightarrow>
     \<exists>r f. update p = Some r \<and> store r = None \<and> updatePopper = Some f
       \<and> assignUpdate p updatePopper store = store(r := Some f)"
  by (auto simp add: assignUpdate_def split: option.splits)

text \<open>
  C10. The effect stores the recompute function of the positioning engine in the \<open>update\<close>
  ref when the ref is supplied, is unset and the engine has a function; it changes the
  store in no other case. Once a ref holds a function, it holds the same function after
  any number of later renders, whatever functions the engine returns at them.
\<close>

theorem write_once_update_handle:
  "(update p = Some r \<and> store r = None \<and> updatePopper = Some f \<longrightarrow>
      assignUpdate p updatePopper store = store(r := Some f))
   \<and> (assignUpdate p updatePopper store \<noteq> store \<longrightarrow>
        (\<exists>r' f'. update p = Some r' \<and> store r' = None \<and> updatePopper = Some f'
           \<and> assignUpdate p updatePopper store = store(r' := Some f')))
   \<and> (store r = Some f \<longrightarrow> assignUpdates store renders r = Some f)"
proof (intro conjI impI)
  assume "update p = Some r \<and> store r = None \<and> updatePopper = Some f"
  then show "assignUpdate p updatePopper store = store(r := Some f)"
    by (simp add: assignUpdate_def)
next
  assume "assignUpdate p updatePopper store \<noteq> store"
  then show "\<exists>r' f'. update p = Some r' \<and> store r' = None \<and> updatePopper = Some f'
           \<and> assignUpdate p updatePopper store = store(r' := Some f')"
    by (rule assignUpdate_changes)
next
  assume "store r = Some f"
  then show "assignUpdates store renders r = Some f"
    by (rule assignUpdates_keeps)
qed

theorem write_once_update_handle_witness:
  "assignUpdate refProps (Some 3) unsetRefs = unsetRefs(7 := Some 3)
   \<and> assignUpdates (unsetRefs(7 := Some 3))
        [(refProps, Some 4), (refProps, None), (refProps, Some 5)] 7 = Some 3"
proof -
  have h1: "update refProps = Some 7 \<and> unsetRefs 7 = None \<and> Some (3::nat) = Some 3"
    by (simp add: refProps_def bareProps_def unsetRefs_def)
  have c1: "assignUpdate refProps (Some 3) unsetRefs = unsetRefs(7 := Some 3)"
    using write_once_update_handle
      [where p = refProps and r = 7 and store = unsetRefs and updatePopper = "Some 3" and f = 3]
      h1
    by blast
  have h3: "(unsetRefs(7 := Some 3)) 7 = Some 3" by simp
  have c3: "assignUpdates (unsetRefs(7 := Some 3))
        [(refProps, Some 4), (refProps, None), (refProps, Some 5)] 7 = Some 3"
    using write_once_update_handle
      [where r = 7 and store = "unsetRefs(7 := Some 3)" and f = 3
        and renders = "[(refProps, Some 4), (refProps, None), (refProps, Some 5)]"] h3
    by blast
  from c1 c3 show ?thesis by (rule conjI)
qed

end
